theory Spec2Isabelle
  imports Main "HOL-Library.Word"
begin

unbundle bit_operations_syntax

section \<open>Offline electronic cash: coin codec, merchant acceptance, double-spend detector\<close>

text \<open>
  The development embeds the three functions of \<^verbatim>\<open>src/Task3/tempCodeRunnerFile.js\<close>:
  \<^verbatim>\<open>parseCoin\<close>, \<^verbatim>\<open>acceptCoin\<close> and \<^verbatim>\<open>determineCheater\<close>.
  The modules \<^verbatim>\<open>coin.js\<close> and \<^verbatim>\<open>utils.js\<close> and the package
  \<^verbatim>\<open>blind-signatures\<close> are imported by the source but are not part of it; what the
  three functions use of them is a parameter of the model.
\<close>

subsection \<open>JavaScript values: strings, arrays, exceptions\<close>

text \<open>
  A JavaScript string is a \<^typ>\<open>string\<close>, an array of strings a \<^typ>\<open>string list\<close>.
  Reading an array at an index it does not have gives \<^verbatim>\<open>undefined\<close>, which is
  \<^const>\<open>None\<close> here; \<^verbatim>\<open>a !== b\<close> on two such reads is inequality of options.
\<close>

definition js_index :: "'a list \<Rightarrow> nat \<Rightarrow> 'a option" where
  "js_index xs i = (if i < length xs then Some (xs ! i) else None)"

text \<open>
  \<^verbatim>\<open>s.split(sep)\<close> for a one-character separator: the fields between the separators,
  in order. The result is never empty; \<^verbatim>\<open>"".split('-')\<close> is \<^verbatim>\<open>[""]\<close>.
  \<open>split_from sep cur s\<close> scans \<open>s\<close> with the field \<open>cur\<close> open.
\<close>

fun split_from :: "char \<Rightarrow> string \<Rightarrow> string \<Rightarrow> string list" where
  "split_from sep cur [] = [cur]"
| "split_from sep cur (c # cs) =
     (if c = sep then cur # split_from sep [] cs else split_from sep (cur @ [c]) cs)"

definition js_split :: "char \<Rightarrow> string \<Rightarrow> string list" where
  "js_split sep s = split_from sep [] s"

text \<open>\<^verbatim>\<open>xs.join(sep)\<close> for a one-character separator.\<close>

fun join :: "char \<Rightarrow> string list \<Rightarrow> string" where
  "join sep [] = []"
| "join sep [x] = x"
| "join sep (x # y # ys) = x @ sep # join sep (y # ys)"

text \<open>\<^verbatim>\<open>s.startsWith(p)\<close>.\<close>

fun startsWith :: "string \<Rightarrow> string \<Rightarrow> bool" where
  "startsWith s [] = True"
| "startsWith [] (p # ps) = False"
| "startsWith (c # cs) (p # ps) = (c = p \<and> startsWith cs ps)"

text \<open>
  The exceptions. The source throws \<^verbatim>\<open>Error\<close> objects told apart by their message;
  the constructors carry the names the specification gives them:
  \<^item> \<open>MalformedCoinError\<close>: \<^verbatim>\<open>Invalid identity string: ... received, but ... expected\<close>;
  \<^item> \<open>InvalidSignatureError\<close>: \<^verbatim>\<open>Invalid signature!\<close>;
  \<^item> \<open>ForgeryError\<close>: \<^verbatim>\<open>RIS hash mismatch - Coin may be forged!\<close>;
  \<^item> \<open>TypeError\<close>: the \<^verbatim>\<open>TypeError\<close> of the runtime, when a method is called on
    \<^verbatim>\<open>undefined\<close> or \<^verbatim>\<open>Buffer.from\<close> is given \<^verbatim>\<open>undefined\<close>;
  \<^item> \<open>InputMismatchError\<close>: named by the specification; no statement of the source
    throws it.
\<close>

datatype error =
    MalformedCoinError
  | InvalidSignatureError
  | ForgeryError
  | TypeError
  | InputMismatchError

subsection \<open>What the source imports\<close>

type_synonym byte = "8 word"

text \<open>
  The constants of \<^verbatim>\<open>coin.js\<close>, \<^verbatim>\<open>utils.hash\<close> and \<^verbatim>\<open>utils.xorBuffers\<close>,
  \<^verbatim>\<open>blindSignatures.verify\<close> (signature, message, \<open>N\<close>, \<open>E\<close>), and the two
  \<^verbatim>\<open>Buffer\<close> conversions \<^verbatim>\<open>Buffer.from(s, 'hex')\<close> and \<^verbatim>\<open>buf.toString()\<close>.
\<close>

record imported =
  COIN_RIS_LENGTH :: nat
  IDENT_STR :: string
  BANK_STR :: string
  hash :: "string \<Rightarrow> string"
  xorBuffers :: "byte list \<Rightarrow> byte list \<Rightarrow> byte list"
  verify :: "nat \<Rightarrow> string \<Rightarrow> nat \<Rightarrow> nat \<Rightarrow> bool"
  bufferFromHex :: "string \<Rightarrow> byte list"
  bufferToString :: "byte list \<Rightarrow> string"

text \<open>
  What \<^verbatim>\<open>acceptCoin\<close> reads of a \<^verbatim>\<open>Coin\<close> object: the fields
  \<^verbatim>\<open>signature\<close>, \<^verbatim>\<open>n\<close>, \<^verbatim>\<open>e\<close> (here \<open>coin_n\<close>, \<open>coin_e\<close>) and the methods
  \<^verbatim>\<open>toString()\<close> and \<^verbatim>\<open>getRis(isLeft, i)\<close>. Shares are strings, as the
  documentation of \<^verbatim>\<open>acceptCoin\<close> has them.
\<close>

record coin =
  signature :: nat
  coin_n :: nat
  coin_e :: nat
  toString :: string
  getRis :: "bool \<Rightarrow> nat \<Rightarrow> string"

subsection \<open>parseCoin\<close>

text \<open>
  The destructuring assignment binds the first five fields and leaves a missing one
  \<^verbatim>\<open>undefined\<close>; further fields are dropped. The tag is compared first; then
  \<^verbatim>\<open>leftHashes.split(',')\<close> and \<^verbatim>\<open>rightHashes.split(',')\<close> are evaluated in this
  order, each a \<^verbatim>\<open>TypeError\<close> on \<^verbatim>\<open>undefined\<close>.
\<close>

definition parseCoin :: "imported \<Rightarrow> string \<Rightarrow> error + (string list \<times> string list)" where
  "parseCoin env s =
     (let fields = js_split CHR ''-'' s;
          cnst = js_index fields 0;
          leftHashes = js_index fields 3;
          rightHashes = js_index fields 4
      in if cnst \<noteq> Some (BANK_STR env) then Inl MalformedCoinError
         else case leftHashes of
                None \<Rightarrow> Inl TypeError
              | Some l \<Rightarrow>
                  (case rightHashes of
                     None \<Rightarrow> Inl TypeError
                   | Some r \<Rightarrow> Inr (js_split CHR '','' l, js_split CHR '','' r)))"

subsection \<open>acceptCoin\<close>

text \<open>
  \<^verbatim>\<open>Math.random() < 0.5\<close> is the only effect of the loop. \<open>rnd k\<close> is the outcome
  of the \<open>k\<close>-th such draw of a call, and the number of draws made is returned beside
  the result. Iteration \<open>i\<close> makes draw \<open>i\<close>, so the loop counter is the number of
  draws made so far.
\<close>

function gatherRis ::
  "imported \<Rightarrow> coin \<Rightarrow> string list \<Rightarrow> string list \<Rightarrow> (nat \<Rightarrow> bool) \<Rightarrow> nat \<Rightarrow> string list
     \<Rightarrow> (error + string list) \<times> nat" where
  "gatherRis env c leftHashes rightHashes rnd i ris =
     (if i < COIN_RIS_LENGTH env then
        (let isLeft = rnd i;
             val = getRis c isLeft i;
             hashed = hash env val;
             expected = (if isLeft then js_index leftHashes i else js_index rightHashes i)
         in if Some hashed \<noteq> expected then (Inl ForgeryError, Suc i)
            else gatherRis env c leftHashes rightHashes rnd (Suc i) (ris @ [val]))
      else (Inr ris, i))"
  by pat_completeness auto
termination
  by (relation "measure (\<lambda>(env, c, lh, rh, rnd, i, ris). COIN_RIS_LENGTH env - i)") auto

declare gatherRis.simps [simp del]

text \<open>
  The comparison of the loop body at index \<open>i\<close>: the hash of the share disclosed for
  the drawn side is the commitment read at \<open>i\<close> from the list of that side.
\<close>

definition shareMatches ::
  "imported \<Rightarrow> coin \<Rightarrow> string list \<Rightarrow> string list \<Rightarrow> (nat \<Rightarrow> bool) \<Rightarrow> nat \<Rightarrow> bool" where
  "shareMatches env c leftHashes rightHashes rnd i =
     (Some (hash env (getRis c (rnd i) i)) =
        (if rnd i then js_index leftHashes i else js_index rightHashes i))"

definition acceptCoin :: "imported \<Rightarrow> (nat \<Rightarrow> bool) \<Rightarrow> coin \<Rightarrow> (error + string list) \<times> nat" where
  "acceptCoin env rnd c =
     (let valid = verify env (signature c) (toString c) (coin_n c) (coin_e c)
      in if \<not> valid then (Inl InvalidSignatureError, 0)
         else case parseCoin env (toString c) of
                Inl err \<Rightarrow> (Inl err, 0)
              | Inr (leftHashes, rightHashes) \<Rightarrow>
                  gatherRis env c leftHashes rightHashes rnd 0 [])"

subsection \<open>determineCheater\<close>

text \<open>
  The function returns nothing; its result is the line it prints after the first one:
  \<^item> \<open>OwnerCheater trueId\<close>: \<^verbatim>\<open>Double-spending detected! The cheater is the buyer: ...\<close>,
    where \<open>trueId\<close> is \<^verbatim>\<open>xor.split(':')[1]\<close>, \<^const>\<open>None\<close> when it is \<^verbatim>\<open>undefined\<close>;
  \<^item> \<open>MerchantCheater\<close>: \<^verbatim>\<open>Double-spending detected! One of the merchants is cheating.\<close>;
  \<^item> \<open>FalseClaim\<close>: \<^verbatim>\<open>Both RIS strings are identical. The merchant is trying to cheat.\<close>
\<close>

datatype verdict = OwnerCheater "string option" | MerchantCheater | FalseClaim

text \<open>\<^verbatim>\<open>utils.xorBuffers(Buffer.from(a, 'hex'), Buffer.from(b, 'hex')).toString()\<close>\<close>

definition recovered :: "imported \<Rightarrow> string \<Rightarrow> string \<Rightarrow> string" where
  "recovered env a b =
     bufferToString env (xorBuffers env (bufferFromHex env a) (bufferFromHex env b))"

text \<open>The branch taken at an index where the transcripts differ.\<close>

definition classify :: "imported \<Rightarrow> string option \<Rightarrow> string option \<Rightarrow> error + verdict" where
  "classify env x y =
     (case x of
        None \<Rightarrow> Inl TypeError
      | Some a \<Rightarrow>
          (case y of
             None \<Rightarrow> Inl TypeError
           | Some b \<Rightarrow>
               (let xor = recovered env a b
                in if startsWith xor (IDENT_STR env)
                   then Inr (OwnerCheater (js_index (js_split CHR '':'' xor) 1))
                   else Inr MerchantCheater)))"

function scanRis :: "imported \<Rightarrow> string list \<Rightarrow> string list \<Rightarrow> nat \<Rightarrow> error + verdict" where
  "scanRis env ris1 ris2 i =
     (if i < COIN_RIS_LENGTH env then
        (if js_index ris1 i \<noteq> js_index ris2 i
         then classify env (js_index ris1 i) (js_index ris2 i)
         else scanRis env ris1 ris2 (Suc i))
      else Inr FalseClaim)"
  by pat_completeness auto
termination
  by (relation "measure (\<lambda>(env, ris1, ris2, i). COIN_RIS_LENGTH env - i)") auto

declare scanRis.simps [simp del]

text \<open>The \<open>guid\<close> is printed in the first line and not used otherwise.\<close>

definition determineCheater :: "imported \<Rightarrow> string \<Rightarrow> string list \<Rightarrow> string list \<Rightarrow> error + verdict" where
  "determineCheater env guid ris1 ris2 = scanRis env ris1 ris2 0"

subsection \<open>The encoder\<close>

text \<open>
  Modelled from the spec: the encoder is the constructor of \<^verbatim>\<open>coin.js\<close>, which is
  not under \<^verbatim>\<open>src/\<close>. The specification gives the canonical string as
  \<^verbatim>\<open><BANK_TAG>-<amount>-<guid>-<hashLeft_0>,...-<hashRight_0>,...\<close> and lets the
  encoder fail with \<open>MalformedCoinError\<close> when \<open>amount\<close> or \<open>guid\<close> contains the
  delimiter \<^verbatim>\<open>-\<close>. The record holds the public data of a coin that the string encodes.
\<close>

record commitments =
  amount :: string
  coin_guid :: string
  hashLeft :: "string list"
  hashRight :: "string list"

definition encode :: "imported \<Rightarrow> commitments \<Rightarrow> error + string" where
  "encode env p =
     (if CHR ''-'' \<in> set (amount p) \<or> CHR ''-'' \<in> set (coin_guid p) then Inl MalformedCoinError
      else Inr (BANK_STR env @ CHR ''-'' # amount p @ CHR ''-'' # coin_guid p
                  @ CHR ''-'' # join CHR '','' (hashLeft p)
                  @ CHR ''-'' # join CHR '','' (hashRight p)))"

text \<open>
  Modelled from the spec: a valid coin has \<open>RIS_LENGTH\<close> commitments on each side, every
  one a hexadecimal string, and neither \<open>amount\<close> nor \<open>guid\<close> contains the delimiter.
\<close>

definition isHexString :: "string \<Rightarrow> bool" where
  "isHexString h = list_all (\<lambda>ch. ch \<in> set ''0123456789abcdefABCDEF'') h"

definition validCoin :: "imported \<Rightarrow> commitments \<Rightarrow> bool" where
  "validCoin env p =
     (length (hashLeft p) = COIN_RIS_LENGTH env \<and> length (hashRight p) = COIN_RIS_LENGTH env
      \<and> list_all isHexString (hashLeft p) \<and> list_all isHexString (hashRight p)
      \<and> CHR ''-'' \<notin> set (amount p) \<and> CHR ''-'' \<notin> set (coin_guid p))"

subsection \<open>Sample collaborators and a sample coin\<close>

text \<open>
  Concrete values for the parameters, at which the theorems below are instantiated.
  \<open>hexDecode\<close> is \<^verbatim>\<open>Buffer.from(s, 'hex')\<close>: pairs of hexadecimal digits, up to the
  first pair that is not one.
\<close>

definition hexDigit :: "char \<Rightarrow> nat option" where
  "hexDigit ch =
     (let k = (of_char ch :: nat)
      in if 48 \<le> k \<and> k \<le> 57 then Some (k - 48)
         else if 97 \<le> k \<and> k \<le> 102 then Some (k - 87)
         else if 65 \<le> k \<and> k \<le> 70 then Some (k - 55)
         else None)"

fun hexDecode :: "string \<Rightarrow> byte list" where
  "hexDecode (a # b # cs) =
     (case hexDigit a of
        None \<Rightarrow> []
      | Some x \<Rightarrow>
          (case hexDigit b of
             None \<Rightarrow> []
           | Some y \<Rightarrow> of_nat (16 * x + y) # hexDecode cs))"
| "hexDecode cs = []"

text \<open>
  Modelled from the spec: \<^verbatim>\<open>utils.xorBuffers\<close> is not under \<^verbatim>\<open>src/\<close>; the
  specification has it as the exclusive or of two byte strings. The sample takes it
  byte by byte, on two buffers of the same length.
\<close>

definition xorBytes :: "byte list \<Rightarrow> byte list \<Rightarrow> byte list" where
  "xorBytes a b = map (\<lambda>(x, y). x XOR y) (zip a b)"

text \<open>
  \<open>utf8String\<close> is \<^verbatim>\<open>buf.toString()\<close>, which decodes UTF-8. The string it gives is
  held here as its UTF-8 bytes, one \<^typ>\<open>char\<close> a byte, so that a byte below \<open>0x80\<close>
  is the character of that code and a well-formed sequence of two to four bytes is kept
  as it is. Every ill-formed part is replaced by the character U+FFFD, the three bytes
  \<open>EF BF BD\<close>: a byte that cannot begin a sequence, a sequence cut short by a byte
  outside the range \<open>lo..hi\<close> allowed next (that byte is then read again as the
  beginning of a sequence), and a sequence cut short by the end of the buffer.
  \<open>utf8_from pending need lo hi bs\<close> decodes \<open>bs\<close> with the bytes \<open>pending\<close> of a
  sequence read and \<open>need\<close> more of them expected.
\<close>

definition replacementBytes :: "byte list" where
  "replacementBytes = [0xEF, 0xBF, 0xBD]"

fun utf8_from :: "byte list \<Rightarrow> nat \<Rightarrow> byte \<Rightarrow> byte \<Rightarrow> byte list \<Rightarrow> byte list" where
  "utf8_from pending 0 lo hi [] = []"
| "utf8_from pending (Suc k) lo hi [] = replacementBytes"
| "utf8_from pending 0 lo hi (b # bs) =
     (if b < 0x80 then b # utf8_from [] 0 0x80 0xBF bs
      else if 0xC2 \<le> b \<and> b \<le> 0xDF then utf8_from [b] 1 0x80 0xBF bs
      else if 0xE0 \<le> b \<and> b \<le> 0xEF
        then utf8_from [b] 2 (if b = 0xE0 then 0xA0 else 0x80) (if b = 0xED then 0x9F else 0xBF) bs
      else if 0xF0 \<le> b \<and> b \<le> 0xF4
        then utf8_from [b] 3 (if b = 0xF0 then 0x90 else 0x80) (if b = 0xF4 then 0x8F else 0xBF) bs
      else replacementBytes @ utf8_from [] 0 0x80 0xBF bs)"
| "utf8_from pending (Suc k) lo hi (b # bs) =
     (if lo \<le> b \<and> b \<le> hi
      then (if k = 0 then pending @ b # utf8_from [] 0 0x80 0xBF bs
            else utf8_from (pending @ [b]) k 0x80 0xBF bs)
      else replacementBytes @ utf8_from [] 0 0x80 0xBF (b # bs))"

definition utf8String :: "byte list \<Rightarrow> string" where
  "utf8String bs = map (\<lambda>w. char_of (unat w)) (utf8_from [] 0 0x80 0xBF bs)"

text \<open>
  \<open>sampleHash\<close> and \<open>sampleVerify\<close> stand for the hash function and for the
  verification of a signature (a textbook RSA check of the length of the message, with
  modulus 33 and exponent 3 in the sample coin). \<open>COIN_RIS_LENGTH\<close> is the 10 of the
  specification's end-to-end scenario; the marker and the bank tag are sample strings.
\<close>

definition sampleHash :: "string \<Rightarrow> string" where
  "sampleHash s = ''5a'' @ rev s"

definition sampleVerify :: "nat \<Rightarrow> string \<Rightarrow> nat \<Rightarrow> nat \<Rightarrow> bool" where
  "sampleVerify sg msg m ex = (sg ^ ex mod m = length msg mod m)"

definition sampleEnv :: imported where
  "sampleEnv =
     \<lparr> COIN_RIS_LENGTH = 10, IDENT_STR = ''IDENT'', BANK_STR = ''ELECTRONIC_PIGGYBANK'',
       hash = sampleHash, xorBuffers = xorBytes, verify = sampleVerify,
       bufferFromHex = hexDecode, bufferToString = utf8String \<rparr>"

text \<open>
  A coin of owner \<^verbatim>\<open>alice\<close>: at every index the left share is eleven zero bytes and the
  right share is the left one xor-ed with \<^verbatim>\<open>IDENT:alice\<close>, both in hexadecimal.
\<close>

definition sampleLeft :: string where
  "sampleLeft = ''0000000000000000000000''"

definition sampleRight :: string where
  "sampleRight = ''4944454e543a616c696365''"

definition samplePublic :: commitments where
  "samplePublic =
     \<lparr> amount = ''20'', coin_guid = ''coin01'',
       hashLeft = replicate 10 (sampleHash sampleLeft),
       hashRight = replicate 10 (sampleHash sampleRight) \<rparr>"

definition sampleString :: string where
  "sampleString =
     ''ELECTRONIC_PIGGYBANK-20-coin01-'' @ join CHR '','' (replicate 10 (sampleHash sampleLeft))
       @ CHR ''-'' # join CHR '','' (replicate 10 (sampleHash sampleRight))"

definition sampleCoin :: coin where
  "sampleCoin =
     \<lparr> signature = 29, coin_n = 33, coin_e = 3, toString = sampleString,
       getRis = (\<lambda>isLeft i. if isLeft then sampleLeft else sampleRight) \<rparr>"

text \<open>The same coin with a share at index 3 that its commitment does not cover.\<close>

definition forgedCoin :: coin where
  "forgedCoin =
     sampleCoin \<lparr> getRis := (\<lambda>isLeft i. if i = 3 then ''ff'' else getRis sampleCoin isLeft i) \<rparr>"

text \<open>The same coin with a signature that does not verify.\<close>

definition missignedCoin :: coin where
  "missignedCoin = sampleCoin \<lparr> signature := 28 \<rparr>"

section \<open>Properties\<close>

subsection \<open>Arrays and strings\<close>

lemma js_index_take: "i < n \<Longrightarrow> js_index (take n xs) i = js_index xs i"
  by (simp add: js_index_def)

lemma take_eq_js_index:
  assumes "take n xs = take n ys" and "i < n"
  shows "js_index xs i = js_index ys i"
proof -
  have "js_index xs i = js_index (take n xs) i" "js_index ys i = js_index (take n ys) i"
    using assms(2) by (simp_all add: js_index_take)
  with assms(1) show ?thesis by simp
qed

lemma split_from_not_Nil: "split_from sep cur s \<noteq> []"
  by (induction s arbitrary: cur) auto

lemma length_split_from: "length (split_from sep cur s) = Suc (count_list s sep)"
  by (induction s arbitrary: cur) auto

lemma split_from_no_sep: "sep \<notin> set s \<Longrightarrow> split_from sep cur s = [cur @ s]"
  by (induction s arbitrary: cur) auto

lemma split_from_append_sep:
  "sep \<notin> set s \<Longrightarrow> split_from sep cur (s @ sep # t) = (cur @ s) # split_from sep [] t"
  by (induction s arbitrary: cur) auto

lemma js_split_not_Nil: "js_split sep s \<noteq> []"
  by (simp add: js_split_def split_from_not_Nil)

lemma length_js_split: "length (js_split sep s) = Suc (count_list s sep)"
  by (simp add: js_split_def length_split_from)

lemma js_split_no_sep: "sep \<notin> set s \<Longrightarrow> js_split sep s = [s]"
  by (simp add: js_split_def split_from_no_sep)

lemma js_split_append_sep:
  "sep \<notin> set s \<Longrightarrow> js_split sep (s @ sep # t) = s # js_split sep t"
  by (simp add: js_split_def split_from_append_sep)

lemma js_index_0_js_split: "js_index (js_split sep s) 0 = Some (hd (js_split sep s))"
  using js_split_not_Nil [of sep s] by (cases "js_split sep s") (simp_all add: js_index_def)

lemma js_split_join:
  "xs \<noteq> [] \<Longrightarrow> (\<And>x. x \<in> set xs \<Longrightarrow> sep \<notin> set x) \<Longrightarrow> js_split sep (join sep xs) = xs"
proof (induction sep xs rule: join.induct)
  case (1 sep)
  then show ?case by simp
next
  case (2 sep x)
  then show ?case by (simp add: js_split_no_sep)
next
  case (3 sep x y ys)
  then have "js_split sep (join sep (y # ys)) = y # ys" by simp
  moreover from "3.prems" have "sep \<notin> set x" by simp
  ultimately show ?case by (simp add: js_split_append_sep)
qed

lemma set_join: "set (join sep xs) \<subseteq> insert sep (\<Union>x\<in>set xs. set x)"
  by (induction sep xs rule: join.induct) auto

lemma startsWith_append: "startsWith (m @ t) m"
  by (induction m) auto

lemma second_field:
  assumes "sep \<notin> set m" and "sep \<notin> set p"
  shows "js_index (js_split sep (m @ sep # p)) 1 = Some p"
  using assms by (simp add: js_split_append_sep js_split_no_sep js_index_def)

lemma isHexString_excludes:
  assumes "isHexString h" and "ch \<notin> set ''0123456789abcdefABCDEF''"
  shows "ch \<notin> set h"
  using assms unfolding isHexString_def list_all_iff by blast

lemma isHexString_no_dash: "isHexString h \<Longrightarrow> CHR ''-'' \<notin> set h"
  by (rule isHexString_excludes) simp_all

lemma isHexString_no_comma: "isHexString h \<Longrightarrow> CHR '','' \<notin> set h"
  by (rule isHexString_excludes) simp_all

subsection \<open>parseCoin on a given list of fields\<close>

lemma parseCoin_five_fields:
  assumes "js_split CHR ''-'' s = cnst # amt # gd # l # r # rest"
  shows "parseCoin env s =
           (if cnst = BANK_STR env then Inr (js_split CHR '','' l, js_split CHR '','' r)
            else Inl MalformedCoinError)"
  using assms by (simp add: parseCoin_def js_index_def)

lemma parseCoin_tag_mismatch:
  assumes "hd (js_split CHR ''-'' s) \<noteq> BANK_STR env"
  shows "parseCoin env s = Inl MalformedCoinError"
  using assms by (simp add: parseCoin_def Let_def js_index_0_js_split)

lemma parseCoin_short:
  assumes "length (js_split CHR ''-'' s) < 5" and "hd (js_split CHR ''-'' s) = BANK_STR env"
  shows "parseCoin env s = Inl TypeError"
proof -
  have "js_index (js_split CHR ''-'' s) 4 = None"
    using assms(1) by (simp add: js_index_def)
  then show ?thesis
    using assms(2) by (simp add: parseCoin_def Let_def js_index_0_js_split split: option.splits)
qed

subsection \<open>The loop of determineCheater\<close>

lemma scanRis_all_equal:
  "(\<And>j. i \<le> j \<Longrightarrow> j < COIN_RIS_LENGTH env \<Longrightarrow> js_index ris1 j = js_index ris2 j)
     \<Longrightarrow> scanRis env ris1 ris2 i = Inr FalseClaim"
proof (induction env ris1 ris2 i rule: scanRis.induct)
  case (1 env ris1 ris2 i)
  show ?case
  proof (cases "i < COIN_RIS_LENGTH env")
    case True
    with "1.prems" have eq: "js_index ris1 i = js_index ris2 i" by simp
    have "scanRis env ris1 ris2 (Suc i) = Inr FalseClaim"
      using True eq "1.prems" by (intro "1.IH") simp_all
    with True eq show ?thesis by (subst scanRis.simps) simp
  next
    case False
    then show ?thesis by (subst scanRis.simps) simp
  qed
qed

lemma scanRis_first_difference:
  "i \<le> k \<Longrightarrow> k < COIN_RIS_LENGTH env
     \<Longrightarrow> (\<And>j. i \<le> j \<Longrightarrow> j < k \<Longrightarrow> js_index ris1 j = js_index ris2 j)
     \<Longrightarrow> js_index ris1 k \<noteq> js_index ris2 k
     \<Longrightarrow> scanRis env ris1 ris2 i = classify env (js_index ris1 k) (js_index ris2 k)"
proof (induction env ris1 ris2 i rule: scanRis.induct)
  case (1 env ris1 ris2 i)
  show ?case
  proof (cases "i = k")
    case True
    with "1.prems" show ?thesis by (subst scanRis.simps) simp
  next
    case False
    with "1.prems" have lt: "i < k" "i < COIN_RIS_LENGTH env" by simp_all
    with "1.prems" have eq: "js_index ris1 i = js_index ris2 i" by simp
    have "scanRis env ris1 ris2 (Suc i) = classify env (js_index ris1 k) (js_index ris2 k)"
      using lt eq "1.prems" by (intro "1.IH") simp_all
    with lt eq show ?thesis by (subst scanRis.simps) simp
  qed
qed

lemma classify_not_InputMismatch: "classify env x y \<noteq> Inl InputMismatchError"
  by (simp add: classify_def Let_def split: option.splits)

lemma scanRis_not_InputMismatch: "scanRis env ris1 ris2 i \<noteq> Inl InputMismatchError"
proof (induction env ris1 ris2 i rule: scanRis.induct)
  case (1 env ris1 ris2 i)
  show ?case
  proof (cases "i < COIN_RIS_LENGTH env \<and> js_index ris1 i = js_index ris2 i")
    case True
    with "1.IH" show ?thesis by (subst scanRis.simps) simp
  next
    case False
    with classify_not_InputMismatch show ?thesis by (subst scanRis.simps) auto
  qed
qed

lemma scanRis_take:
  "scanRis env (take (COIN_RIS_LENGTH env) ris1) (take (COIN_RIS_LENGTH env) ris2) i
     = scanRis env ris1 ris2 i"
proof (induction env ris1 ris2 i rule: scanRis.induct)
  case (1 env ris1 ris2 i)
  show ?case
  proof (cases "i < COIN_RIS_LENGTH env")
    case True
    then have ix: "js_index (take (COIN_RIS_LENGTH env) ris1) i = js_index ris1 i"
      "js_index (take (COIN_RIS_LENGTH env) ris2) i = js_index ris2 i"
      by (simp_all add: js_index_take)
    show ?thesis
    proof (cases "js_index ris1 i = js_index ris2 i")
      case eq: True
      have "scanRis env (take (COIN_RIS_LENGTH env) ris1) (take (COIN_RIS_LENGTH env) ris2) i
              = scanRis env (take (COIN_RIS_LENGTH env) ris1) (take (COIN_RIS_LENGTH env) ris2) (Suc i)"
        using True ix eq by (subst scanRis.simps) simp
      also have "\<dots> = scanRis env ris1 ris2 (Suc i)"
        using True eq by (intro "1.IH") simp_all
      also have "\<dots> = scanRis env ris1 ris2 i"
        using True eq by (subst (2) scanRis.simps) simp
      finally show ?thesis .
    next
      case ne: False
      have "scanRis env (take (COIN_RIS_LENGTH env) ris1) (take (COIN_RIS_LENGTH env) ris2) i
              = classify env (js_index ris1 i) (js_index ris2 i)"
        using True ix ne by (subst scanRis.simps) simp
      also have "\<dots> = scanRis env ris1 ris2 i"
        using True ne by (subst scanRis.simps) simp
      finally show ?thesis .
    qed
  next
    case False
    then show ?thesis by (simp add: scanRis.simps)
  qed
qed

subsection \<open>The loop of acceptCoin\<close>

lemma gatherRis_step:
  "gatherRis env c lh rh rnd i ris =
     (if i < COIN_RIS_LENGTH env then
        (if shareMatches env c lh rh rnd i
         then gatherRis env c lh rh rnd (Suc i) (ris @ [getRis c (rnd i) i])
         else (Inl ForgeryError, Suc i))
      else (Inr ris, i))"
  by (subst gatherRis.simps) (simp add: Let_def shareMatches_def)

lemma gatherRis_all_match:
  "i \<le> COIN_RIS_LENGTH env
     \<Longrightarrow> (\<And>j. i \<le> j \<Longrightarrow> j < COIN_RIS_LENGTH env \<Longrightarrow> shareMatches env c lh rh rnd j)
     \<Longrightarrow> gatherRis env c lh rh rnd i ris =
           (Inr (ris @ map (\<lambda>j. getRis c (rnd j) j) [i..<COIN_RIS_LENGTH env]), COIN_RIS_LENGTH env)"
proof (induction env c lh rh rnd i ris rule: gatherRis.induct)
  case (1 env c lh rh rnd i ris)
  show ?case
  proof (cases "i < COIN_RIS_LENGTH env")
    case True
    with "1.prems" have m: "shareMatches env c lh rh rnd i" by simp
    then have m': "Some (hash env (getRis c (rnd i) i)) =
        (if rnd i then js_index lh i else js_index rh i)"
      by (simp add: shareMatches_def)
    have ih: "gatherRis env c lh rh rnd (Suc i) (ris @ [getRis c (rnd i) i]) =
        (Inr ((ris @ [getRis c (rnd i) i]) @ map (\<lambda>j. getRis c (rnd j) j) [Suc i..<COIN_RIS_LENGTH env]),
         COIN_RIS_LENGTH env)"
      using True m' "1.prems" by (intro "1.IH") simp_all
    have "gatherRis env c lh rh rnd i ris =
        gatherRis env c lh rh rnd (Suc i) (ris @ [getRis c (rnd i) i])"
      using True m by (subst gatherRis_step) simp
    with ih True show ?thesis by (simp add: upt_conv_Cons)
  next
    case False
    with "1.prems" have "i = COIN_RIS_LENGTH env" by simp
    then show ?thesis by (subst gatherRis_step) simp
  qed
qed

lemma gatherRis_first_mismatch:
  "i \<le> k \<Longrightarrow> k < COIN_RIS_LENGTH env
     \<Longrightarrow> (\<And>j. i \<le> j \<Longrightarrow> j < k \<Longrightarrow> shareMatches env c lh rh rnd j)
     \<Longrightarrow> \<not> shareMatches env c lh rh rnd k
     \<Longrightarrow> gatherRis env c lh rh rnd i ris = (Inl ForgeryError, Suc k)"
proof (induction env c lh rh rnd i ris rule: gatherRis.induct)
  case (1 env c lh rh rnd i ris)
  show ?case
  proof (cases "i = k")
    case True
    with "1.prems" show ?thesis by (subst gatherRis_step) simp
  next
    case False
    with "1.prems" have lt: "i < k" "i < COIN_RIS_LENGTH env" by simp_all
    with "1.prems" have m: "shareMatches env c lh rh rnd i" by simp
    then have m': "Some (hash env (getRis c (rnd i) i)) =
        (if rnd i then js_index lh i else js_index rh i)"
      by (simp add: shareMatches_def)
    have "gatherRis env c lh rh rnd (Suc i) (ris @ [getRis c (rnd i) i]) = (Inl ForgeryError, Suc k)"
      using lt m' "1.prems" by (intro "1.IH") simp_all
    moreover have "gatherRis env c lh rh rnd i ris =
        gatherRis env c lh rh rnd (Suc i) (ris @ [getRis c (rnd i) i])"
      using lt m by (subst gatherRis_step) simp
    ultimately show ?thesis by simp
  qed
qed

lemma gatherRis_Inr_length:
  "gatherRis env c lh rh rnd i ris = (Inr out, d)
     \<Longrightarrow> length out = length ris + (COIN_RIS_LENGTH env - i)"
proof (induction env c lh rh rnd i ris rule: gatherRis.induct)
  case (1 env c lh rh rnd i ris)
  show ?case
  proof (cases "i < COIN_RIS_LENGTH env")
    case True
    show ?thesis
    proof (cases "shareMatches env c lh rh rnd i")
      case m: True
      then have m': "Some (hash env (getRis c (rnd i) i)) =
          (if rnd i then js_index lh i else js_index rh i)"
        by (simp add: shareMatches_def)
      have "gatherRis env c lh rh rnd i ris =
          gatherRis env c lh rh rnd (Suc i) (ris @ [getRis c (rnd i) i])"
        using True m by (subst gatherRis_step) simp
      with "1.prems" have "gatherRis env c lh rh rnd (Suc i) (ris @ [getRis c (rnd i) i]) = (Inr out, d)"
        by simp
      with True m' have "length out = length (ris @ [getRis c (rnd i) i]) + (COIN_RIS_LENGTH env - Suc i)"
        by (intro "1.IH") simp_all
      with True show ?thesis by simp
    next
      case False
      with True have "gatherRis env c lh rh rnd i ris = (Inl ForgeryError, Suc i)"
        by (subst gatherRis_step) simp
      with "1.prems" show ?thesis by simp
    qed
  next
    case False
    then have "gatherRis env c lh rh rnd i ris = (Inr ris, i)"
      by (subst gatherRis_step) simp
    with "1.prems" False show ?thesis by simp
  qed
qed

lemma acceptCoin_checked:
  assumes "verify env (signature c) (toString c) (coin_n c) (coin_e c)"
    and "parseCoin env (toString c) = Inr (lh, rh)"
  shows "acceptCoin env rnd c = gatherRis env c lh rh rnd 0 []"
  using assms by (simp add: acceptCoin_def)

section \<open>The claims\<close>

subsection \<open>Decoding\<close>

text \<open>
  C9. For every input string whose first field, up to the first \<^verbatim>\<open>-\<close>, is not the bank
  tag, \<open>parseCoin\<close> raises \<open>MalformedCoinError\<close> (wrong issuer) and returns no hash
  lists.
\<close>

theorem parseCoin_wrong_issuer:
  assumes "hd (js_split CHR ''-'' s) \<noteq> BANK_STR env"
  shows "parseCoin env s = Inl MalformedCoinError"
  using assms by (rule parseCoin_tag_mismatch)

theorem parseCoin_wrong_issuer_witness:
  "hd (js_split CHR ''-'' ''PIGGYBANK-20-coin01-aa,bb-cc,dd'') \<noteq> BANK_STR sampleEnv
   \<and> parseCoin sampleEnv ''PIGGYBANK-20-coin01-aa,bb-cc,dd'' = Inl MalformedCoinError"
proof -
  have h: "hd (js_split CHR ''-'' ''PIGGYBANK-20-coin01-aa,bb-cc,dd'') \<noteq> BANK_STR sampleEnv"
    by code_simp
  from h parseCoin_wrong_issuer [OF h] show ?thesis by (rule conjI)
qed

text \<open>
  C5, as the code has it. \<open>parseCoin\<close> does not look at the lengths of the two hash
  lists: for every input string with at least five fields whose first field is the bank
  tag, it returns the fourth and the fifth field split at the commas, however many
  entries each has, and raises nothing.
\<close>

theorem parseCoin_no_length_check:
  assumes "hd (js_split CHR ''-'' s) = BANK_STR env"
    and "5 \<le> length (js_split CHR ''-'' s)"
  shows "parseCoin env s =
           Inr (js_split CHR '','' (js_split CHR ''-'' s ! 3),
                js_split CHR '','' (js_split CHR ''-'' s ! 4))"
proof -
  have "js_index (js_split CHR ''-'' s) 3 = Some (js_split CHR ''-'' s ! 3)"
    and "js_index (js_split CHR ''-'' s) 4 = Some (js_split CHR ''-'' s ! 4)"
    using assms(2) by (simp_all add: js_index_def)
  then show ?thesis
    using assms(1) by (simp add: parseCoin_def Let_def js_index_0_js_split)
qed

theorem parseCoin_no_length_check_witness:
  "hd (js_split CHR ''-'' ''ELECTRONIC_PIGGYBANK-20-coin01-aa-bb,cc'') = BANK_STR sampleEnv
   \<and> parseCoin sampleEnv ''ELECTRONIC_PIGGYBANK-20-coin01-aa-bb,cc'' = Inr ([''aa''], [''bb'', ''cc''])"
proof -
  have h: "hd (js_split CHR ''-'' ''ELECTRONIC_PIGGYBANK-20-coin01-aa-bb,cc'') = BANK_STR sampleEnv"
    by code_simp
  have n: "5 \<le> length (js_split CHR ''-'' ''ELECTRONIC_PIGGYBANK-20-coin01-aa-bb,cc'')"
    by code_simp
  have e: "Inr (js_split CHR '','' (js_split CHR ''-'' ''ELECTRONIC_PIGGYBANK-20-coin01-aa-bb,cc'' ! 3),
                js_split CHR '','' (js_split CHR ''-'' ''ELECTRONIC_PIGGYBANK-20-coin01-aa-bb,cc'' ! 4))
      = (Inr ([''aa''], [''bb'', ''cc'']) :: error + string list \<times> string list)"
    by code_simp
  from parseCoin_no_length_check [OF h n]
  have "parseCoin sampleEnv ''ELECTRONIC_PIGGYBANK-20-coin01-aa-bb,cc'' = Inr ([''aa''], [''bb'', ''cc''])"
    by (simp only: e)
  with h show ?thesis by (rule conjI)
qed

text \<open>
  The claim C5 as stated fails: a string whose hash lists have one and two entries, so
  that no value of \<open>COIN_RIS_LENGTH\<close> is the length of both, and here neither has the
  length 10, is decoded without an error.
\<close>

theorem parseCoin_wrong_length_accepted:
  "parseCoin sampleEnv ''ELECTRONIC_PIGGYBANK-20-coin01-aa-bb,cc'' = Inr ([''aa''], [''bb'', ''cc''])
   \<and> length [''aa''] \<noteq> COIN_RIS_LENGTH sampleEnv
   \<and> length [''bb'', ''cc''] \<noteq> COIN_RIS_LENGTH sampleEnv"
  by code_simp

text \<open>
  C10, as the code has it. An input string with fewer than four \<^verbatim>\<open>-\<close> splits into
  fewer than five fields. \<open>parseCoin\<close> then fails with the \<^verbatim>\<open>TypeError\<close> of the
  runtime when the first field is the bank tag, and with \<open>MalformedCoinError\<close>, raised
  first, when it is not.
\<close>

theorem parseCoin_too_few_fields:
  assumes "count_list s CHR ''-'' < 4"
  shows "length (js_split CHR ''-'' s) < 5
         \<and> parseCoin env s =
             (if hd (js_split CHR ''-'' s) = BANK_STR env then Inl TypeError
              else Inl MalformedCoinError)"
proof -
  have n: "length (js_split CHR ''-'' s) < 5"
    using assms by (simp add: length_js_split)
  then show ?thesis
    by (simp add: parseCoin_short parseCoin_tag_mismatch)
qed

theorem parseCoin_too_few_fields_witness:
  "count_list ''ELECTRONIC_PIGGYBANK-20-coin01-aa'' CHR ''-'' < 4
   \<and> parseCoin sampleEnv ''ELECTRONIC_PIGGYBANK-20-coin01-aa'' = Inl TypeError"
proof -
  have h: "count_list ''ELECTRONIC_PIGGYBANK-20-coin01-aa'' CHR ''-'' < 4"
    by code_simp
  have t: "hd (js_split CHR ''-'' ''ELECTRONIC_PIGGYBANK-20-coin01-aa'') = BANK_STR sampleEnv"
    by code_simp
  from parseCoin_too_few_fields [OF h, of sampleEnv]
  have "parseCoin sampleEnv ''ELECTRONIC_PIGGYBANK-20-coin01-aa'' = Inl TypeError"
    by (simp only: t simp_thms if_True)
  with h show ?thesis by (rule conjI)
qed

text \<open>
  The claim C10 as stated fails: a string of two fields whose first field is not the
  bank tag fails with \<open>MalformedCoinError\<close>, not with the \<^verbatim>\<open>TypeError\<close>.
\<close>

theorem parseCoin_too_few_fields_wrong_tag:
  "length (js_split CHR ''-'' ''PIGGYBANK-20'') < 5
   \<and> parseCoin sampleEnv ''PIGGYBANK-20'' = Inl MalformedCoinError
   \<and> parseCoin sampleEnv ''PIGGYBANK-20'' \<noteq> Inl TypeError"
  by code_simp

text \<open>
  C7. Round trip: the encoder succeeds on every valid coin, and decoding the string it
  gives returns the two lists of commitments of the coin, element for element. The
  constants are parameters here: the law needs a positive \<open>COIN_RIS_LENGTH\<close> (the join
  of no commitments is the empty string, which splits into one empty field) and a bank
  tag without the delimiter \<^verbatim>\<open>-\<close>.
\<close>

theorem decode_encode_roundtrip:
  assumes "validCoin env p" and "0 < COIN_RIS_LENGTH env" and "CHR ''-'' \<notin> set (BANK_STR env)"
  shows "\<exists>s. encode env p = Inr s \<and> parseCoin env s = Inr (hashLeft p, hashRight p)"
proof -
  let ?L = "join CHR '','' (hashLeft p)" and ?R = "join CHR '','' (hashRight p)"
  from assms(1) have len: "length (hashLeft p) = COIN_RIS_LENGTH env"
      "length (hashRight p) = COIN_RIS_LENGTH env"
    and hexL: "\<And>h. h \<in> set (hashLeft p) \<Longrightarrow> isHexString h"
    and hexR: "\<And>h. h \<in> set (hashRight p) \<Longrightarrow> isHexString h"
    and amt: "CHR ''-'' \<notin> set (amount p)" and gd: "CHR ''-'' \<notin> set (coin_guid p)"
    by (simp_all add: validCoin_def list_all_iff)
  from len assms(2) have ne: "hashLeft p \<noteq> []" "hashRight p \<noteq> []" by auto
  have splitL: "js_split CHR '','' ?L = hashLeft p"
    using ne(1) by (rule js_split_join) (simp add: hexL isHexString_no_comma)
  have splitR: "js_split CHR '','' ?R = hashRight p"
    using ne(2) by (rule js_split_join) (simp add: hexR isHexString_no_comma)
  have dashL: "CHR ''-'' \<notin> set ?L"
  proof
    assume "CHR ''-'' \<in> set ?L"
    with set_join [of "CHR '',''" "hashLeft p"] obtain h where "h \<in> set (hashLeft p)" "CHR ''-'' \<in> set h"
      by auto
    with hexL isHexString_no_dash show False by blast
  qed
  have dashR: "CHR ''-'' \<notin> set ?R"
  proof
    assume "CHR ''-'' \<in> set ?R"
    with set_join [of "CHR '',''" "hashRight p"] obtain h where "h \<in> set (hashRight p)" "CHR ''-'' \<in> set h"
      by auto
    with hexR isHexString_no_dash show False by blast
  qed
  let ?s = "BANK_STR env @ CHR ''-'' # amount p @ CHR ''-'' # coin_guid p @ CHR ''-'' # ?L @ CHR ''-'' # ?R"
  have enc: "encode env p = Inr ?s"
    using amt gd by (simp add: encode_def)
  have "js_split CHR ''-'' ?s = [BANK_STR env, amount p, coin_guid p, ?L, ?R]"
    using assms(3) amt gd dashL dashR by (simp add: js_split_append_sep js_split_no_sep)
  then have "parseCoin env ?s = Inr (js_split CHR '','' ?L, js_split CHR '','' ?R)"
    by (simp add: parseCoin_five_fields)
  with enc splitL splitR show ?thesis by simp
qed

theorem decode_encode_roundtrip_witness:
  "validCoin sampleEnv samplePublic
   \<and> encode sampleEnv samplePublic = Inr sampleString
   \<and> parseCoin sampleEnv sampleString = Inr (hashLeft samplePublic, hashRight samplePublic)"
proof -
  have v: "validCoin sampleEnv samplePublic"
    by code_simp
  have n: "0 < COIN_RIS_LENGTH sampleEnv"
    by (simp add: sampleEnv_def)
  have b: "CHR ''-'' \<notin> set (BANK_STR sampleEnv)"
    by code_simp
  have e: "encode sampleEnv samplePublic = Inr sampleString"
    by code_simp
  from decode_encode_roundtrip [OF v n b] obtain s
    where "encode sampleEnv samplePublic = Inr s"
      and "parseCoin sampleEnv s = Inr (hashLeft samplePublic, hashRight samplePublic)"
    by blast
  with e have "parseCoin sampleEnv sampleString = Inr (hashLeft samplePublic, hashRight samplePublic)"
    by simp
  with v e show ?thesis by simp
qed

subsection \<open>Merchant acceptance\<close>

text \<open>
  C3. The signature is verified first: for every coin whose signature does not verify
  against the coin's string, \<open>acceptCoin\<close> raises \<open>InvalidSignatureError\<close>, whatever
  the string decodes to and whatever the random source would give, and no draw has
  been made (no challenge issued), so no transcript is produced.
\<close>

theorem acceptCoin_invalid_signature:
  assumes "\<not> verify env (signature c) (toString c) (coin_n c) (coin_e c)"
  shows "acceptCoin env rnd c = (Inl InvalidSignatureError, 0)"
  using assms by (simp add: acceptCoin_def)

theorem acceptCoin_invalid_signature_witness:
  "\<not> verify sampleEnv (signature missignedCoin) (toString missignedCoin)
        (coin_n missignedCoin) (coin_e missignedCoin)
   \<and> acceptCoin sampleEnv (\<lambda>i. even i) missignedCoin = (Inl InvalidSignatureError, 0)"
proof -
  have len: "length sampleString = 530"
    by code_simp
  have h: "\<not> verify sampleEnv (signature missignedCoin) (toString missignedCoin)
        (coin_n missignedCoin) (coin_e missignedCoin)"
    by (simp add: sampleEnv_def missignedCoin_def sampleCoin_def sampleVerify_def len)
  from h acceptCoin_invalid_signature [OF h, of "\<lambda>i. even i"] show ?thesis by (rule conjI)
qed

text \<open>
  C4. Acceptance is all or nothing. Whatever the coin and the random source, a returned
  transcript has exactly \<open>COIN_RIS_LENGTH\<close> entries. Once the signature has verified
  and the string has decoded, a share at some index \<open>i\<close> below \<open>COIN_RIS_LENGTH\<close>
  whose hash is not the commitment of the drawn side makes \<open>acceptCoin\<close> raise
  \<open>ForgeryError\<close>, with no transcript, and at once: no draw is made for an index
  beyond \<open>i\<close>.
\<close>

theorem acceptCoin_atomic:
  "(\<forall>ris. fst (acceptCoin env rnd c) = Inr ris \<longrightarrow> length ris = COIN_RIS_LENGTH env)
   \<and> (verify env (signature c) (toString c) (coin_n c) (coin_e c)
        \<longrightarrow> parseCoin env (toString c) = Inr (lh, rh)
        \<longrightarrow> i < COIN_RIS_LENGTH env
        \<longrightarrow> \<not> shareMatches env c lh rh rnd i
        \<longrightarrow> fst (acceptCoin env rnd c) = Inl ForgeryError
            \<and> snd (acceptCoin env rnd c) \<le> Suc i)"
proof (intro conjI allI impI)
  fix ris
  assume r: "fst (acceptCoin env rnd c) = Inr ris"
  show "length ris = COIN_RIS_LENGTH env"
  proof (cases "verify env (signature c) (toString c) (coin_n c) (coin_e c)")
    case False
    with r show ?thesis by (simp add: acceptCoin_def)
  next
    case True
    show ?thesis
    proof (cases "parseCoin env (toString c)")
      case (Inl err)
      with True r show ?thesis by (simp add: acceptCoin_def)
    next
      case (Inr hs)
      obtain l r' where hs: "hs = (l, r')" by (cases hs)
      with True Inr have "acceptCoin env rnd c = gatherRis env c l r' rnd 0 []"
        by (simp add: acceptCoin_checked)
      with r have "gatherRis env c l r' rnd 0 [] = (Inr ris, snd (gatherRis env c l r' rnd 0 []))"
        by (metis prod.collapse)
      then have "length ris = length ([] :: string list) + (COIN_RIS_LENGTH env - 0)"
        by (rule gatherRis_Inr_length)
      then show ?thesis by simp
    qed
  qed
next
  assume v: "verify env (signature c) (toString c) (coin_n c) (coin_e c)"
    and p: "parseCoin env (toString c) = Inr (lh, rh)"
    and i: "i < COIN_RIS_LENGTH env"
    and m: "\<not> shareMatches env c lh rh rnd i"
  define k where "k = (LEAST j. \<not> shareMatches env c lh rh rnd j)"
  have k: "\<not> shareMatches env c lh rh rnd k"
    unfolding k_def using m by (rule LeastI)
  have ki: "k \<le> i"
    unfolding k_def using m by (rule Least_le)
  have below: "shareMatches env c lh rh rnd j" if "j < k" for j
    using that not_less_Least unfolding k_def by blast
  have "gatherRis env c lh rh rnd 0 [] = (Inl ForgeryError, Suc k)"
    using ki i k by (intro gatherRis_first_mismatch) (simp_all add: below)
  with v p have "acceptCoin env rnd c = (Inl ForgeryError, Suc k)"
    by (simp add: acceptCoin_checked)
  with ki show "fst (acceptCoin env rnd c) = Inl ForgeryError"
    and "snd (acceptCoin env rnd c) \<le> Suc i"
    by simp_all
qed

theorem acceptCoin_atomic_witness:
  "verify sampleEnv (signature forgedCoin) (toString forgedCoin) (coin_n forgedCoin) (coin_e forgedCoin)
   \<and> parseCoin sampleEnv (toString forgedCoin)
       = Inr (replicate 10 (sampleHash sampleLeft), replicate 10 (sampleHash sampleRight))
   \<and> \<not> shareMatches sampleEnv forgedCoin (replicate 10 (sampleHash sampleLeft))
         (replicate 10 (sampleHash sampleRight)) (\<lambda>i. True) 3
   \<and> fst (acceptCoin sampleEnv (\<lambda>i. True) forgedCoin) = Inl ForgeryError
   \<and> snd (acceptCoin sampleEnv (\<lambda>i. True) forgedCoin) \<le> Suc 3"
proof -
  have len: "length sampleString = 530"
    by code_simp
  have v: "verify sampleEnv (signature forgedCoin) (toString forgedCoin)
      (coin_n forgedCoin) (coin_e forgedCoin)"
    by (simp add: sampleEnv_def forgedCoin_def sampleCoin_def sampleVerify_def len)
  have p: "parseCoin sampleEnv (toString forgedCoin)
      = Inr (replicate 10 (sampleHash sampleLeft), replicate 10 (sampleHash sampleRight))"
    by code_simp
  have i: "3 < COIN_RIS_LENGTH sampleEnv"
    by (simp add: sampleEnv_def)
  have m: "\<not> shareMatches sampleEnv forgedCoin (replicate 10 (sampleHash sampleLeft))
      (replicate 10 (sampleHash sampleRight)) (\<lambda>i. True) 3"
    by code_simp
  from acceptCoin_atomic [of sampleEnv "\<lambda>i. True" forgedCoin
      "replicate 10 (sampleHash sampleLeft)" "replicate 10 (sampleHash sampleRight)" 3]
  have "fst (acceptCoin sampleEnv (\<lambda>i. True) forgedCoin) = Inl ForgeryError
      \<and> snd (acceptCoin sampleEnv (\<lambda>i. True) forgedCoin) \<le> Suc 3"
    using v p i m by blast
  with v p m show ?thesis by blast
qed

text \<open>
  C8. For a coin whose signature verifies, whose string decodes, and whose shares hash
  to the decoded commitments on both sides at every index below \<open>COIN_RIS_LENGTH\<close>,
  \<open>acceptCoin\<close> does not raise \<open>ForgeryError\<close>: for every random source it returns
  the transcript of the \<open>COIN_RIS_LENGTH\<close> disclosed shares, the share of the drawn side
  at each index, in index order.
\<close>

theorem acceptCoin_well_formed:
  assumes "verify env (signature c) (toString c) (coin_n c) (coin_e c)"
    and "parseCoin env (toString c) = Inr (lh, rh)"
    and "\<forall>i<COIN_RIS_LENGTH env.
           js_index lh i = Some (hash env (getRis c True i))
           \<and> js_index rh i = Some (hash env (getRis c False i))"
  shows "acceptCoin env rnd c =
           (Inr (map (\<lambda>i. getRis c (rnd i) i) [0..<COIN_RIS_LENGTH env]), COIN_RIS_LENGTH env)
         \<and> length (map (\<lambda>i. getRis c (rnd i) i) [0..<COIN_RIS_LENGTH env]) = COIN_RIS_LENGTH env"
proof -
  have m: "shareMatches env c lh rh rnd j" if "j < COIN_RIS_LENGTH env" for j
    using assms(3) that by (simp add: shareMatches_def)
  have "gatherRis env c lh rh rnd 0 [] =
      (Inr ([] @ map (\<lambda>j. getRis c (rnd j) j) [0..<COIN_RIS_LENGTH env]), COIN_RIS_LENGTH env)"
    by (rule gatherRis_all_match) (simp_all add: m)
  then show ?thesis
    using assms(1,2) by (simp add: acceptCoin_checked)
qed

theorem acceptCoin_well_formed_witness:
  "verify sampleEnv (signature sampleCoin) (toString sampleCoin) (coin_n sampleCoin) (coin_e sampleCoin)
   \<and> parseCoin sampleEnv (toString sampleCoin)
       = Inr (replicate 10 (sampleHash sampleLeft), replicate 10 (sampleHash sampleRight))
   \<and> acceptCoin sampleEnv (\<lambda>i. i mod 3 = 0) sampleCoin
       = (Inr [sampleLeft, sampleRight, sampleRight, sampleLeft, sampleRight, sampleRight,
               sampleLeft, sampleRight, sampleRight, sampleLeft], 10)"
proof -
  have len: "length sampleString = 530"
    by code_simp
  have v: "verify sampleEnv (signature sampleCoin) (toString sampleCoin)
      (coin_n sampleCoin) (coin_e sampleCoin)"
    by (simp add: sampleEnv_def sampleCoin_def sampleVerify_def len)
  have p: "parseCoin sampleEnv (toString sampleCoin)
      = Inr (replicate 10 (sampleHash sampleLeft), replicate 10 (sampleHash sampleRight))"
    by code_simp
  have n: "COIN_RIS_LENGTH sampleEnv = 10"
    by (simp add: sampleEnv_def)
  have h: "\<forall>i<COIN_RIS_LENGTH sampleEnv.
      js_index (replicate 10 (sampleHash sampleLeft)) i
        = Some (hash sampleEnv (getRis sampleCoin True i))
      \<and> js_index (replicate 10 (sampleHash sampleRight)) i
        = Some (hash sampleEnv (getRis sampleCoin False i))"
    by (simp add: n js_index_def) (simp add: sampleEnv_def sampleCoin_def)
  have e: "map (\<lambda>i. getRis sampleCoin (i mod 3 = 0) i) [0..<10]
      = [sampleLeft, sampleRight, sampleRight, sampleLeft, sampleRight, sampleRight,
         sampleLeft, sampleRight, sampleRight, sampleLeft]"
    by code_simp
  from acceptCoin_well_formed [OF v p h, of "\<lambda>i. i mod 3 = 0"]
  have "acceptCoin sampleEnv (\<lambda>i. i mod 3 = 0) sampleCoin
      = (Inr [sampleLeft, sampleRight, sampleRight, sampleLeft, sampleRight, sampleRight,
              sampleLeft, sampleRight, sampleRight, sampleLeft], 10)"
    by (simp only: n e)
  with v p show ?thesis by simp
qed

subsection \<open>Double-spend detector\<close>

text \<open>
  C2. When the two transcripts are equal at every index \<open>0..COIN_RIS_LENGTH - 1\<close>
  (an index that a transcript does not have reads as \<^verbatim>\<open>undefined\<close> on that side), the
  detector reports \<open>FalseClaim\<close>, for every \<open>guid\<close>, and so never \<open>OwnerCheater\<close>.
\<close>

theorem determineCheater_identical:
  assumes "\<forall>i<COIN_RIS_LENGTH env. js_index ris1 i = js_index ris2 i"
  shows "determineCheater env guid ris1 ris2 = Inr FalseClaim
         \<and> (\<forall>ident. determineCheater env guid ris1 ris2 \<noteq> Inr (OwnerCheater ident))"
proof -
  have "scanRis env ris1 ris2 0 = Inr FalseClaim"
    using assms by (intro scanRis_all_equal) simp
  then show ?thesis by (simp add: determineCheater_def)
qed

theorem determineCheater_identical_witness:
  "determineCheater sampleEnv ''coin01'' (replicate 10 sampleLeft) (replicate 10 sampleLeft)
     = Inr FalseClaim"
proof -
  have h: "\<forall>i<COIN_RIS_LENGTH sampleEnv.
      js_index (replicate 10 sampleLeft) i = js_index (replicate 10 sampleLeft) i"
    by simp
  from determineCheater_identical [OF h, of "''coin01''"] show ?thesis
    by (rule conjunct1)
qed

text \<open>
  C1, as the code has it. For two transcripts of length \<open>COIN_RIS_LENGTH\<close> whose first
  difference is at index \<open>k\<close>, the verdict is decided by the two entries at \<open>k\<close>
  alone, through \<open>recovered\<close>, their exclusive or as a string. When it begins with the
  identity marker, whether or not the delimiter follows the marker, the verdict is
  \<open>OwnerCheater\<close>; otherwise it is \<open>MerchantCheater\<close>. When the recovered string is
  the marker, the delimiter and a payload, with no \<^verbatim>\<open>:\<close> in the marker or in the
  payload, the identity reported is the payload after the delimiter.
\<close>

theorem determineCheater_first_difference:
  assumes "length ris1 = COIN_RIS_LENGTH env" and "length ris2 = COIN_RIS_LENGTH env"
    and "k < COIN_RIS_LENGTH env" and "take k ris1 = take k ris2" and "ris1 ! k \<noteq> ris2 ! k"
  shows "(if startsWith (recovered env (ris1 ! k) (ris2 ! k)) (IDENT_STR env)
          then \<exists>ident. determineCheater env guid ris1 ris2 = Inr (OwnerCheater ident)
          else determineCheater env guid ris1 ris2 = Inr MerchantCheater)
         \<and> (\<forall>payload. recovered env (ris1 ! k) (ris2 ! k) = IDENT_STR env @ CHR '':'' # payload
               \<longrightarrow> CHR '':'' \<notin> set (IDENT_STR env) \<longrightarrow> CHR '':'' \<notin> set payload
               \<longrightarrow> determineCheater env guid ris1 ris2 = Inr (OwnerCheater (Some payload)))"
proof -
  have k1: "js_index ris1 k = Some (ris1 ! k)" and k2: "js_index ris2 k = Some (ris2 ! k)"
    using assms(1-3) by (simp_all add: js_index_def)
  have "scanRis env ris1 ris2 0 = classify env (js_index ris1 k) (js_index ris2 k)"
  proof (rule scanRis_first_difference)
    show "js_index ris1 j = js_index ris2 j" if "j < k" for j
      using assms(4) that by (rule take_eq_js_index)
    show "js_index ris1 k \<noteq> js_index ris2 k"
      using assms(5) by (simp add: k1 k2)
  qed (simp_all add: assms(3))
  then have main: "determineCheater env guid ris1 ris2 =
      Inr (if startsWith (recovered env (ris1 ! k) (ris2 ! k)) (IDENT_STR env)
           then OwnerCheater
                  (js_index (js_split CHR '':'' (recovered env (ris1 ! k) (ris2 ! k))) 1)
           else MerchantCheater)"
    by (simp add: determineCheater_def classify_def k1 k2)
  have kind: "if startsWith (recovered env (ris1 ! k) (ris2 ! k)) (IDENT_STR env)
      then \<exists>ident. determineCheater env guid ris1 ris2 = Inr (OwnerCheater ident)
      else determineCheater env guid ris1 ris2 = Inr MerchantCheater"
    by (simp add: main)
  have "determineCheater env guid ris1 ris2 = Inr (OwnerCheater (Some payload))"
    if "recovered env (ris1 ! k) (ris2 ! k) = IDENT_STR env @ CHR '':'' # payload"
      and "CHR '':'' \<notin> set (IDENT_STR env)" and "CHR '':'' \<notin> set payload"
    for payload
  proof -
    have "js_index (js_split CHR '':'' (IDENT_STR env @ CHR '':'' # payload)) 1 = Some payload"
      using that(2,3) by (rule second_field)
    with that(1) show ?thesis by (simp only: main startsWith_append if_True)
  qed
  with kind show ?thesis by blast
qed

theorem determineCheater_first_difference_witness:
  "take 3 (replicate 10 sampleLeft) = take 3 ((replicate 10 sampleLeft)[3 := sampleRight])
   \<and> replicate 10 sampleLeft ! 3 \<noteq> (replicate 10 sampleLeft)[3 := sampleRight] ! 3
   \<and> recovered sampleEnv (replicate 10 sampleLeft ! 3)
        ((replicate 10 sampleLeft)[3 := sampleRight] ! 3)
       = IDENT_STR sampleEnv @ CHR '':'' # ''alice''
   \<and> determineCheater sampleEnv ''coin01'' (replicate 10 sampleLeft)
        ((replicate 10 sampleLeft)[3 := sampleRight])
       = Inr (OwnerCheater (Some ''alice''))"
proof -
  have l1: "length (replicate 10 sampleLeft) = COIN_RIS_LENGTH sampleEnv"
    by code_simp
  have l2: "length ((replicate 10 sampleLeft)[3 := sampleRight]) = COIN_RIS_LENGTH sampleEnv"
    by code_simp
  have k: "3 < COIN_RIS_LENGTH sampleEnv"
    by (simp add: sampleEnv_def)
  have t: "take 3 (replicate 10 sampleLeft) = take 3 ((replicate 10 sampleLeft)[3 := sampleRight])"
    by code_simp
  have d: "replicate 10 sampleLeft ! 3 \<noteq> (replicate 10 sampleLeft)[3 := sampleRight] ! 3"
    by code_simp
  have r: "recovered sampleEnv (replicate 10 sampleLeft ! 3)
      ((replicate 10 sampleLeft)[3 := sampleRight] ! 3)
      = IDENT_STR sampleEnv @ CHR '':'' # ''alice''"
    by code_simp
  have m: "CHR '':'' \<notin> set (IDENT_STR sampleEnv)"
    by (simp add: sampleEnv_def)
  have pl: "CHR '':'' \<notin> set ''alice''"
    by simp
  from determineCheater_first_difference [OF l1 l2 k t d, of "''coin01''"]
  have "\<forall>payload. recovered sampleEnv (replicate 10 sampleLeft ! 3)
            ((replicate 10 sampleLeft)[3 := sampleRight] ! 3)
          = IDENT_STR sampleEnv @ CHR '':'' # payload
        \<longrightarrow> CHR '':'' \<notin> set (IDENT_STR sampleEnv) \<longrightarrow> CHR '':'' \<notin> set payload
        \<longrightarrow> determineCheater sampleEnv ''coin01'' (replicate 10 sampleLeft)
              ((replicate 10 sampleLeft)[3 := sampleRight])
            = Inr (OwnerCheater (Some payload))"
    by (rule conjunct2)
  with r m pl have "determineCheater sampleEnv ''coin01'' (replicate 10 sampleLeft)
      ((replicate 10 sampleLeft)[3 := sampleRight]) = Inr (OwnerCheater (Some ''alice''))"
    by blast
  with t d r show ?thesis by blast
qed

text \<open>
  The claim C1 as stated fails: two transcripts of length 10 that first differ at index 0,
  where the exclusive or of the two entries is \<^verbatim>\<open>IDENT alice\<close>. It begins with the
  marker but not with the marker followed by the delimiter, so the claim gives
  \<open>MerchantCheater\<close>; the detector reports the buyer, with an \<^verbatim>\<open>undefined\<close>
  identity.
\<close>

theorem determineCheater_marker_without_delimiter:
  "length (sampleLeft # replicate 9 sampleLeft) = COIN_RIS_LENGTH sampleEnv
   \<and> length (''4944454e5420616c696365'' # replicate 9 sampleLeft) = COIN_RIS_LENGTH sampleEnv
   \<and> recovered sampleEnv sampleLeft ''4944454e5420616c696365'' = ''IDENT alice''
   \<and> \<not> startsWith (recovered sampleEnv sampleLeft ''4944454e5420616c696365'')
         (IDENT_STR sampleEnv @ '':'')
   \<and> determineCheater sampleEnv ''coin01'' (sampleLeft # replicate 9 sampleLeft)
        (''4944454e5420616c696365'' # replicate 9 sampleLeft)
       = Inr (OwnerCheater None)
   \<and> determineCheater sampleEnv ''coin01'' (sampleLeft # replicate 9 sampleLeft)
        (''4944454e5420616c696365'' # replicate 9 sampleLeft)
       \<noteq> Inr MerchantCheater"
  by code_simp

text \<open>
  C6, as the code has it. The detector checks neither the lengths of the transcripts nor
  the \<open>guid\<close> before it scans, and never raises \<open>InputMismatchError\<close>: its result is
  the same for every \<open>guid\<close>, and it depends on the transcripts through their entries
  at the indices below \<open>COIN_RIS_LENGTH\<close> only, so that transcripts of different
  lengths are scanned like any others.
\<close>

theorem determineCheater_no_input_check:
  "determineCheater env guid ris1 ris2 \<noteq> Inl InputMismatchError
   \<and> determineCheater env guid' ris1 ris2 = determineCheater env guid ris1 ris2
   \<and> determineCheater env guid (take (COIN_RIS_LENGTH env) ris1) (take (COIN_RIS_LENGTH env) ris2)
       = determineCheater env guid ris1 ris2"
  by (simp add: determineCheater_def scanRis_not_InputMismatch scanRis_take)

theorem determineCheater_no_input_check_witness:
  "determineCheater sampleEnv ''coin01'' (replicate 10 sampleLeft) (replicate 12 sampleLeft)
     = Inr FalseClaim
   \<and> determineCheater sampleEnv ''another'' (replicate 10 sampleLeft) (replicate 12 sampleLeft)
     = Inr FalseClaim"
proof -
  have t: "take (COIN_RIS_LENGTH sampleEnv) (replicate 10 sampleLeft) = replicate 10 sampleLeft"
    "take (COIN_RIS_LENGTH sampleEnv) (replicate 12 sampleLeft) = replicate 10 sampleLeft"
    by code_simp+
  have f: "determineCheater sampleEnv ''coin01'' (replicate 10 sampleLeft) (replicate 10 sampleLeft)
      = Inr FalseClaim"
    by code_simp
  from determineCheater_no_input_check
    [of sampleEnv "''coin01''" "replicate 10 sampleLeft" "replicate 12 sampleLeft" "''another''"]
  show ?thesis
    by (simp only: t f)
qed

text \<open>
  The claim C6 as stated fails: two transcripts of lengths 10 and 11 are scanned and
  classified, and no error is raised.
\<close>

theorem determineCheater_length_mismatch_accepted:
  "length (replicate 10 sampleLeft) \<noteq> length (replicate 11 sampleLeft)
   \<and> determineCheater sampleEnv ''coin01'' (replicate 10 sampleLeft) (replicate 11 sampleLeft)
       = Inr FalseClaim
   \<and> determineCheater sampleEnv ''coin01'' (replicate 10 sampleLeft) (replicate 11 sampleLeft)
       \<noteq> Inl InputMismatchError"
  by code_simp

end
